theory Spec2Isabelle
  imports Main "HOL-Library.Multiset"
begin

section \<open>Data model (src/audit/types.ts, src/audit/config.ts)\<close>

text \<open>
  Strings are \<open>string\<close>, dates are their epoch milliseconds (\<open>Date.getTime()\<close>, the
  value the source compares and subtracts), an optional field \<open>f?: T\<close> is \<open>T option\<close>
  with \<open>None\<close> for a field that reads as undefined (absent, or present with the value
  undefined). Where the code tells the two apart, in the object spread of a partial
  configuration, the field has three values (see \<open>field\<close> below). Counts and indices that the source
  passes to \<open>Array.prototype.slice\<close> are \<open>int\<close>, so that the behaviour of \<open>slice\<close>
  on zero and negative arguments is part of the model. The chain's sequence counter
  starts at 0 and is only ever incremented, so it is a \<open>nat\<close> (a JavaScript number
  is exact on every integer below \<open>2^53\<close>).

  Field names follow the source; where two interfaces share a field name
  (\<open>id\<close>, \<open>type\<close>, \<open>name\<close>, \<open>metadata\<close>, \<open>error\<close>), or the name is a HOL constant,
  the field carries the interface as a prefix.
\<close>

datatype EventType =
  AUTH | AUTHZ | DATA_ACCESS | DATA_MODIFY | CONFIG_CHANGE | ADMIN_ACTION
  | SECURITY_EVENT | USER_LIFECYCLE | API_ACCESS | SYSTEM | CUSTOM

datatype Outcome = SUCCESS | FAILURE | PENDING | UNKNOWN

text \<open>The values of \<open>Record<string, unknown>\<close>: plain JSON data.\<close>

datatype json =
  JNull | JBool bool | JNum int | JStr string | JArr "json list" | JObj "(string \<times> json) list"

record AuditActor =
  actor_id :: "string option"
  actor_type :: "string option"
  actor_name :: "string option"
  actor_ip :: "string option"
  actor_userAgent :: "string option"
  actor_sessionId :: "string option"
  actor_metadata :: "(string \<times> json) list option"

record AuditResource =
  resource_id :: "string option"
  resource_type :: "string option"
  resource_name :: "string option"
  resource_path :: "string option"
  resource_metadata :: "(string \<times> json) list option"

record TraceContext =
  traceId :: "string option"
  spanId :: "string option"
  parentSpanId :: "string option"
  traceFlags :: "int option"
  traceState :: "string option"

record ErrorInfo =
  error_code :: "string option"
  error_message :: "string option"
  error_stack :: "string option"

record AuditEvent =
  event_type :: EventType
  action :: string
  outcome :: Outcome
  description :: "string option"
  actor :: "AuditActor option"
  actorId :: "string option"
  actorType :: "string option"
  actorIp :: "string option"
  resource :: "AuditResource option"
  resourceId :: "string option"
  resourceType :: "string option"
  trace :: "TraceContext option"
  requestId :: "string option"
  data :: "(string \<times> json) list option"
  tags :: "string list option"
  durationMs :: "int option"
  event_error :: "ErrorInfo option"

text \<open>The snapshot of the configuration's service fields, each as the configuration has it.\<close>

record ServiceInfo =
  service_name :: "string option"
  service_version :: "string option"
  service_environment :: "string option"

record ChainEntry =
  hash :: string
  previousHash :: string
  sequence :: nat

record AuditEntry =
  entry_id :: string
  timestamp :: int
  event :: AuditEvent
  service :: "ServiceInfo option"
  chain :: "ChainEntry option"
  signature :: "string option"

datatype SortOrder = Asc | Desc

record TimeRange =
  range_start :: "int option"
  range_end :: "int option"

record AuditQuery =
  timeRange :: "TimeRange option"
  eventTypes :: "EventType list option"
  actions :: "string list option"
  outcomes :: "Outcome list option"
  actorIds :: "string list option"
  resourceTypes :: "string list option"
  resourceIds :: "string list option"
  query_tags :: "string list option"
  search :: "string option"
  limit :: "int option"
  offset :: "int option"
  sort_order :: "SortOrder option"

record AuditQueryResult =
  result_entries :: "AuditEntry list"
  total :: int
  hasMore :: bool

datatype HashAlgorithm = sha256 | sha512

section \<open>Hash chain (src/audit/chain.ts)\<close>

text \<open>
  Two functions of the runtime are parameters of the model:
  \<^item> \<open>H alg s\<close> is \<open>createHash(alg).update(s).digest("hex")\<close> of Node's \<open>crypto\<close>;
  \<^item> \<open>J d\<close> is \<open>JSON.stringify\<close> of the object \<open>{id, timestamp, event, previousHash}\<close>
    that \<open>computeHash\<close> builds, with the timestamp already rendered by \<open>toISOString\<close>.
  Nothing is assumed about either. \<open>J\<close> is total: the events of this model carry
  plain JSON data (\<open>json\<close> above), on which \<open>JSON.stringify\<close> returns; an event
  holding a BigInt or a cyclic object, on which it throws, is not a value of the model.
\<close>

record HashData =
  data_id :: string
  data_timestamp :: int
  data_event :: AuditEvent
  data_previousHash :: string

type_synonym digest = "HashAlgorithm \<Rightarrow> string \<Rightarrow> string"
type_synonym stringify = "HashData \<Rightarrow> string"

text \<open>The private state of a \<open>HashChain\<close> instance.\<close>

record HashChain =
  algorithm :: HashAlgorithm
  this_previousHash :: string
  this_sequence :: nat

definition computeGenesisHash :: "digest \<Rightarrow> HashAlgorithm \<Rightarrow> string" where
  "computeGenesisHash H alg = H alg ''GENESIS''"

text \<open>The constructor; its parameter defaults to \<open>"sha256"\<close>.\<close>

definition HashChain_new :: "digest \<Rightarrow> HashAlgorithm option \<Rightarrow> HashChain" where
  "HashChain_new H a =
     (let alg = (case a of None \<Rightarrow> sha256 | Some x \<Rightarrow> x)
      in \<lparr>algorithm = alg, this_previousHash = computeGenesisHash H alg, this_sequence = 0\<rparr>)"

definition computeHash ::
  "digest \<Rightarrow> stringify \<Rightarrow> HashAlgorithm \<Rightarrow> AuditEntry \<Rightarrow> string \<Rightarrow> string" where
  "computeHash H J alg entry prevHash =
     H alg (J \<lparr>data_id = entry_id entry, data_timestamp = timestamp entry,
               data_event = event entry, data_previousHash = prevHash\<rparr>)"

text \<open>\<open>addEntry\<close> returns the chain entry and the instance with its state advanced.\<close>

definition addEntry ::
  "digest \<Rightarrow> stringify \<Rightarrow> HashChain \<Rightarrow> AuditEntry \<Rightarrow> ChainEntry \<times> HashChain" where
  "addEntry H J c entry =
     (let h = computeHash H J (algorithm c) entry (this_previousHash c);
          chainEntry = \<lparr>hash = h, previousHash = this_previousHash c,
                        sequence = this_sequence c\<rparr>
      in (chainEntry, c\<lparr>this_sequence := this_sequence c + 1, this_previousHash := h\<rparr>))"

definition verifyEntry ::
  "digest \<Rightarrow> stringify \<Rightarrow> HashChain \<Rightarrow> AuditEntry \<Rightarrow> string \<Rightarrow> bool" where
  "verifyEntry H J c entry expectedPreviousHash =
     (case chain entry of
        None \<Rightarrow> False
      | Some ce \<Rightarrow> computeHash H J (algorithm c) entry expectedPreviousHash = hash ce)"

text \<open>The result object \<open>{valid, brokenAt?, error?}\<close> of \<open>verifyChain\<close>.\<close>

record VerifyResult =
  valid :: bool
  brokenAt :: "nat option"
  verify_error :: "string option"

definition verified :: VerifyResult where
  "verified = \<lparr>valid = True, brokenAt = None, verify_error = None\<rparr>"

definition broken :: "nat \<Rightarrow> string \<Rightarrow> VerifyResult" where
  "broken i msg = \<lparr>valid = False, brokenAt = Some i, verify_error = Some msg\<rparr>"

text \<open>A number inside a template literal: its decimal digits.\<close>

fun digits :: "nat \<Rightarrow> string" where
  "digits n = (if n < 10 then [char_of (48 + n)]
               else digits (n div 10) @ [char_of (48 + n mod 10)])"

declare digits.simps [simp del]

text \<open>
  \<open>[...entries].sort((a, b) => (a.chain?.sequence ?? 0) - (b.chain?.sequence ?? 0))\<close>:
  \<open>Array.prototype.sort\<close> is stable, and the comparator is the difference of a key, so
  the result is the stable sort by that key.
\<close>

definition sequenceKey :: "AuditEntry \<Rightarrow> nat" where
  "sequenceKey e = (case chain e of None \<Rightarrow> 0 | Some ce \<Rightarrow> sequence ce)"

definition sortBySequence :: "AuditEntry list \<Rightarrow> AuditEntry list" where
  "sortBySequence entries = sort_key sequenceKey entries"

text \<open>
  The loop \<open>for (let i = 1; i < sorted.length; i++)\<close>: \<open>verifyLinks i previous rest\<close>
  is the loop at index \<open>i\<close>, with \<open>previous = sorted[i - 1]\<close> and \<open>rest\<close> the entries
  from \<open>sorted[i]\<close> on.
\<close>

fun verifyLinks :: "nat \<Rightarrow> AuditEntry \<Rightarrow> AuditEntry list \<Rightarrow> VerifyResult" where
  "verifyLinks i previous [] = verified"
| "verifyLinks i previous (current # rest) =
     (case (chain current, chain previous) of
        (Some cc, Some pc) \<Rightarrow>
          if previousHash cc \<noteq> hash pc then
            broken i (''Chain broken: expected previousHash '' @ hash pc @ '', got ''
                      @ previousHash cc)
          else if sequence cc \<noteq> sequence pc + 1 then
            broken i (''Sequence gap: expected '' @ digits (sequence pc + 1) @ '', got ''
                      @ digits (sequence cc))
          else verifyLinks (Suc i) current rest
      | _ \<Rightarrow> broken i ''Missing chain data'')"

text \<open>
  \<open>verifyChain\<close> returns early on \<open>entries.length === 0\<close>; the sorted copy is empty
  exactly then, which is the first case below.
\<close>

definition verifyChain :: "digest \<Rightarrow> HashChain \<Rightarrow> AuditEntry list \<Rightarrow> VerifyResult" where
  "verifyChain H c entries =
     (case sortBySequence entries of
        [] \<Rightarrow> verified
      | first # rest \<Rightarrow>
          (case chain first of
             None \<Rightarrow> broken 0 ''Missing chain data''
           | Some fc \<Rightarrow>
               if sequence fc = 0 \<and> previousHash fc \<noteq> computeGenesisHash H (algorithm c)
               then broken 0 ''Invalid genesis hash''
               else verifyLinks 1 first rest))"

section \<open>Memory store (src/audit/store.ts)\<close>

text \<open>
  \<open>Array.prototype.slice(start, end)\<close> on a list of length \<open>len\<close>: a negative index
  counts from the end, every index is clamped to \<open>[0, len]\<close>, and an absent end is
  \<open>len\<close>. The integer \<open>-0\<close> is \<open>0\<close>, as \<open>ToIntegerOrInfinity\<close> makes it.
\<close>

definition relativeIndex :: "int \<Rightarrow> int \<Rightarrow> int" where
  "relativeIndex len i = (if i < 0 then max (len + i) 0 else min i len)"

definition slice :: "'a list \<Rightarrow> int \<Rightarrow> int option \<Rightarrow> 'a list" where
  "slice xs start stop =
     (let len = int (length xs);
          k = relativeIndex len start;
          final = (case stop of None \<Rightarrow> len | Some e \<Rightarrow> relativeIndex len e)
      in take (nat (final - k)) (drop (nat k) xs))"

record MemoryStore =
  entries :: "AuditEntry list"
  maxSize :: int

text \<open>The constructor; \<open>maxSize\<close> defaults to 10000.\<close>

definition MemoryStore_new :: "int option \<Rightarrow> MemoryStore" where
  "MemoryStore_new m = \<lparr>entries = [], maxSize = (case m of None \<Rightarrow> 10000 | Some n \<Rightarrow> n)\<rparr>"

definition MemoryStore_write :: "MemoryStore \<Rightarrow> AuditEntry \<Rightarrow> MemoryStore" where
  "MemoryStore_write s entry =
     (let pushed = entries s @ [entry]
      in if int (length pushed) > maxSize s
         then s\<lparr>entries := slice pushed (- maxSize s) None\<rparr>
         else s\<lparr>entries := pushed\<rparr>)"

definition MemoryStore_close :: "MemoryStore \<Rightarrow> MemoryStore" where
  "MemoryStore_close s = s\<lparr>entries := []\<rparr>"

text \<open>
  \<open>String.prototype.toLowerCase\<close> is a function of the runtime and a parameter
  \<open>lower\<close> of the model; nothing is assumed about it. \<open>String.prototype.includes\<close>
  asks whether the argument is a contiguous part of the string.
\<close>

type_synonym lowercase = "string \<Rightarrow> string"

fun startsWith :: "string \<Rightarrow> string \<Rightarrow> bool" where
  "startsWith s [] = True"
| "startsWith [] (p # ps) = False"
| "startsWith (c # cs) (p # ps) = (c = p \<and> startsWith cs ps)"

fun includes_str :: "string \<Rightarrow> string \<Rightarrow> bool" where
  "includes_str [] p = (p = [])"
| "includes_str (c # cs) p = (startsWith (c # cs) p \<or> includes_str cs p)"

text \<open>
  A string used as a condition is true when it is present and not empty:
  \<open>x && ids.includes(x)\<close>.
\<close>

definition truthyIn :: "string option \<Rightarrow> string list \<Rightarrow> bool" where
  "truthyIn x allowed = (case x of None \<Rightarrow> False | Some v \<Rightarrow> v \<noteq> [] \<and> v \<in> set allowed)"

text \<open>
  Each \<open>if (...) results = results.filter(...)\<close> of \<open>query\<close>, as one step on the list.
  A list filter applies when the list is present and not empty (\<open>?.length\<close>), a date
  bound when it is present (a \<open>Date\<close> object is always true as a condition), the text
  search when the string is present and not empty.
\<close>

definition filterStart :: "AuditQuery \<Rightarrow> AuditEntry list \<Rightarrow> AuditEntry list" where
  "filterStart q rs =
     (case timeRange q of
        None \<Rightarrow> rs
      | Some tr \<Rightarrow> (case range_start tr of
                     None \<Rightarrow> rs
                   | Some s \<Rightarrow> filter (\<lambda>e. timestamp e \<ge> s) rs))"

definition filterEnd :: "AuditQuery \<Rightarrow> AuditEntry list \<Rightarrow> AuditEntry list" where
  "filterEnd q rs =
     (case timeRange q of
        None \<Rightarrow> rs
      | Some tr \<Rightarrow> (case range_end tr of
                     None \<Rightarrow> rs
                   | Some t \<Rightarrow> filter (\<lambda>e. timestamp e \<le> t) rs))"

definition filterList ::
  "'a list option \<Rightarrow> ('a list \<Rightarrow> AuditEntry \<Rightarrow> bool) \<Rightarrow> AuditEntry list \<Rightarrow> AuditEntry list" where
  "filterList allowed p rs =
     (case allowed of
        None \<Rightarrow> rs
      | Some xs \<Rightarrow> if xs = [] then rs else filter (p xs) rs)"

definition matchesActorIds :: "string list \<Rightarrow> AuditEntry \<Rightarrow> bool" where
  "matchesActorIds ids e =
     (truthyIn (actorId (event e)) ids
      \<or> truthyIn (case actor (event e) of None \<Rightarrow> None | Some a \<Rightarrow> actor_id a) ids)"

definition matchesResourceTypes :: "string list \<Rightarrow> AuditEntry \<Rightarrow> bool" where
  "matchesResourceTypes ts e =
     (truthyIn (resourceType (event e)) ts
      \<or> truthyIn (case resource (event e) of None \<Rightarrow> None | Some r \<Rightarrow> resource_type r) ts)"

definition matchesResourceIds :: "string list \<Rightarrow> AuditEntry \<Rightarrow> bool" where
  "matchesResourceIds ids e =
     (truthyIn (resourceId (event e)) ids
      \<or> truthyIn (case resource (event e) of None \<Rightarrow> None | Some r \<Rightarrow> resource_id r) ids)"

definition matchesTags :: "string list \<Rightarrow> AuditEntry \<Rightarrow> bool" where
  "matchesTags ts e =
     (case tags (event e) of None \<Rightarrow> False | Some ets \<Rightarrow> \<exists>t \<in> set ets. t \<in> set ts)"

definition filterSearch :: "lowercase \<Rightarrow> AuditQuery \<Rightarrow> AuditEntry list \<Rightarrow> AuditEntry list" where
  "filterSearch lower q rs =
     (case search q of
        None \<Rightarrow> rs
      | Some s \<Rightarrow>
          if s = [] then rs
          else (let searchLower = lower s
                in filter (\<lambda>e. (case description (event e) of
                                   None \<Rightarrow> False
                                 | Some d \<Rightarrow> includes_str (lower d) searchLower)
                                \<or> includes_str (lower (action (event e))) searchLower) rs))"

definition applyFilters :: "lowercase \<Rightarrow> AuditQuery \<Rightarrow> AuditEntry list \<Rightarrow> AuditEntry list" where
  "applyFilters lower q rs =
     filterSearch lower q
       (filterList (query_tags q) matchesTags
         (filterList (resourceIds q) matchesResourceIds
           (filterList (resourceTypes q) matchesResourceTypes
             (filterList (actorIds q) matchesActorIds
               (filterList (outcomes q) (\<lambda>os e. outcome (event e) \<in> set os)
                 (filterList (actions q) (\<lambda>as e. action (event e) \<in> set as)
                   (filterList (eventTypes q) (\<lambda>ts e. event_type (event e) \<in> set ts)
                     (filterEnd q (filterStart q rs)))))))))"

text \<open>
  \<open>results.sort((a, b) => sortOrder === "asc" ? diff : -diff)\<close> with \<open>diff\<close> the
  difference of the timestamps: the stable sort by the timestamp, or by its negation.
\<close>

definition sortEntries :: "SortOrder \<Rightarrow> AuditEntry list \<Rightarrow> AuditEntry list" where
  "sortEntries sortOrder rs =
     sort_key (\<lambda>e. if sortOrder = Asc then timestamp e else - timestamp e) rs"

definition query :: "lowercase \<Rightarrow> MemoryStore \<Rightarrow> AuditQuery \<Rightarrow> AuditQueryResult" where
  "query lower s q =
     (let results = applyFilters lower q (entries s);
          sortOrder = (case sort_order q of None \<Rightarrow> Desc | Some d \<Rightarrow> d);
          results = sortEntries sortOrder results;
          total = int (length results);
          off = (case offset q of None \<Rightarrow> 0 | Some v \<Rightarrow> v);
          lim = (case limit q of None \<Rightarrow> 100 | Some v \<Rightarrow> v);
          results = slice results off (Some (off + lim))
      in \<lparr>result_entries = results, total = total,
          hasMore = (off + int (length results) < total)\<rparr>)"

section \<open>Sink writer (src/audit/store.ts)\<close>

text \<open>
  A promise that has settled is a sum: \<open>Inr v\<close> when it fulfilled with \<open>v\<close>, \<open>Inl r\<close>
  when it rejected with reason \<open>r\<close>. An \<open>async\<close> function turns an exception thrown in
  its body into a rejection, so both are \<open>Inl\<close>. A promise that never settles is
  not modelled.
\<close>

type_synonym 'a promise = "string + 'a"

datatype AuditSink =
  FileSink string "bool option"
  | WebhookSink string "(string \<times> string) list option"
  | ConsoleSink
  | CustomSink "AuditEntry \<Rightarrow> unit promise"

text \<open>
  The calls that \<open>writeToSink\<close> makes outside the program: \<open>console.log\<close>,
  \<open>fs.promises.appendFile\<close>, \<open>fetch\<close> and a custom sink's handler, each with the entry
  it is to deliver. The calls made so far are a list, in the order in which they
  were made; every function that makes such calls takes the list and returns it
  extended.

  The environment is the parameter \<open>R\<close>: \<open>R tr c\<close> is how the call \<open>c\<close> settles when
  the calls \<open>tr\<close> were made before it. Nothing is assumed about it. A handler settles
  as the handler itself says.
\<close>

datatype IOCall =
  ConsoleLog AuditEntry
  | AppendFile string AuditEntry
  | Fetch string "(string \<times> string) list" AuditEntry
  | InvokeHandler "AuditEntry \<Rightarrow> unit promise" AuditEntry

type_synonym respond = "IOCall list \<Rightarrow> IOCall \<Rightarrow> unit promise"

text \<open>
  An object with string values is the list of its properties in insertion order.
  Setting a property that the object has replaces its value in place, and the
  spread \<open>{...obj, ...extra}\<close> sets the properties of \<open>extra\<close> one after the other.
\<close>

fun setProperty :: "string \<Rightarrow> string \<Rightarrow> (string \<times> string) list \<Rightarrow> (string \<times> string) list" where
  "setProperty k v [] = [(k, v)]"
| "setProperty k v ((k', v') # kvs) =
     (if k' = k then (k, v) # kvs else (k', v') # setProperty k v kvs)"

definition spreadInto :: "(string \<times> string) list \<Rightarrow> (string \<times> string) list \<Rightarrow> (string \<times> string) list" where
  "spreadInto obj extra = foldl (\<lambda>acc kv. setProperty (fst kv) (snd kv) acc) obj extra"

text \<open>
  \<open>{"Content-Type": "application/json", ...sink.headers}\<close>: a header of the sink
  named \<open>Content-Type\<close> replaces the literal one.
\<close>

definition webhookHeaders :: "(string \<times> string) list option \<Rightarrow> (string \<times> string) list" where
  "webhookHeaders headers =
     spreadInto [(''Content-Type'', ''application/json'')]
       (case headers of None \<Rightarrow> [] | Some hs \<Rightarrow> hs)"

text \<open>The sink list is the constructor's argument as it was given, which may be undefined.\<close>

record SinkWriter =
  writer_sinks :: "AuditSink list option"

definition SinkWriter_new :: "AuditSink list option \<Rightarrow> SinkWriter" where
  "SinkWriter_new ss = \<lparr>writer_sinks = ss\<rparr>"

text \<open>\<open>writeToSink\<close>: the \<open>switch\<close> on the sink's type; each case makes its call.\<close>

definition writeToSink ::
  "respond \<Rightarrow> AuditSink \<Rightarrow> AuditEntry \<Rightarrow> IOCall list \<Rightarrow> IOCall list \<times> unit promise" where
  "writeToSink R sink entry tr =
     (case sink of
        ConsoleSink \<Rightarrow> (tr @ [ConsoleLog entry], R tr (ConsoleLog entry))
      | FileSink path rot \<Rightarrow> (tr @ [AppendFile path entry], R tr (AppendFile path entry))
      | WebhookSink url headers \<Rightarrow>
          (tr @ [Fetch url (webhookHeaders headers) entry],
           R tr (Fetch url (webhookHeaders headers) entry))
      | CustomSink handler \<Rightarrow> (tr @ [InvokeHandler handler entry], handler entry))"

text \<open>
  \<open>this.sinks.map((sink) => this.writeToSink(sink, entry))\<close>: one call of
  \<open>writeToSink\<close> per element, from the first to the last, and the list of the promises.
\<close>

fun writeToSinks ::
  "respond \<Rightarrow> AuditSink list \<Rightarrow> AuditEntry \<Rightarrow> IOCall list
   \<Rightarrow> IOCall list \<times> unit promise list" where
  "writeToSinks R [] entry tr = (tr, [])"
| "writeToSinks R (sink # rest) entry tr =
     (case writeToSink R sink entry tr of
        (tr1, p) \<Rightarrow> (case writeToSinks R rest entry tr1 of (tr2, ps) \<Rightarrow> (tr2, p # ps)))"

text \<open>
  \<open>Promise.allSettled\<close> fulfils with the outcome of every promise, whatever the
  outcomes are.
\<close>

definition allSettled :: "'a promise list \<Rightarrow> 'a promise list promise" where
  "allSettled ps = Inr ps"

text \<open>
  \<open>write\<close>: when the sink list is undefined, \<open>this.sinks.map\<close> throws a \<open>TypeError\<close>
  and the promise of \<open>write\<close> rejects with it; otherwise \<open>write\<close> awaits
  \<open>Promise.allSettled\<close> of the promises.
\<close>

definition SinkWriter_write ::
  "respond \<Rightarrow> SinkWriter \<Rightarrow> AuditEntry \<Rightarrow> IOCall list \<Rightarrow> IOCall list \<times> unit promise" where
  "SinkWriter_write R sw entry tr =
     (case writer_sinks sw of
        None \<Rightarrow> (tr, Inl ''TypeError'')
      | Some ss \<Rightarrow>
          (case writeToSinks R ss entry tr of
             (tr', promises) \<Rightarrow>
               (case allSettled promises of
                  Inl r \<Rightarrow> (tr', Inl r)
                | Inr results \<Rightarrow> (tr', Inr ()))))"

section \<open>Configuration (src/audit/config.ts)\<close>

datatype StoreType = memory_store | file_store

record StoreConfig =
  sc_type :: StoreType
  sc_filePath :: "string option"
  sc_maxSize :: "int option"
  sc_bufferSize :: "int option"
  sc_flushInterval :: "int option"

text \<open>
  A configuration object at run time. It comes out of an object spread over a
  partial configuration, whose fields may hold undefined, so each of its fields
  holds a value of its type or undefined (\<open>None\<close>).
\<close>

record AuditConfig =
  enableStructured :: "bool option"
  hashChain :: "bool option"
  hashAlgorithm :: "HashAlgorithm option"
  serviceName :: "string option"
  serviceVersion :: "string option"
  environment :: "string option"
  retentionDays :: "int option"
  enableSignatures :: "bool option"
  signingKey :: "string option"
  sinks :: "AuditSink list option"
  includeStackTraces :: "bool option"
  autoDelete :: "bool option"
  bufferSize :: "int option"
  flushInterval :: "int option"
  store_config :: "StoreConfig option"

text \<open>
  A field of a \<open>Partial<AuditConfig>\<close>: the key is absent, or it is present with the
  value undefined, or it is present with a value of the field's type. The object
  spread copies every key that is present, also one whose value is undefined.
\<close>

datatype 'a field = Absent | Undefined | Value 'a

record PartialAuditConfig =
  p_enableStructured :: "bool field"
  p_hashChain :: "bool field"
  p_hashAlgorithm :: "HashAlgorithm field"
  p_serviceName :: "string field"
  p_serviceVersion :: "string field"
  p_environment :: "string field"
  p_retentionDays :: "int field"
  p_enableSignatures :: "bool field"
  p_signingKey :: "string field"
  p_sinks :: "AuditSink list field"
  p_includeStackTraces :: "bool field"
  p_autoDelete :: "bool field"
  p_bufferSize :: "int field"
  p_flushInterval :: "int field"
  p_store :: "StoreConfig field"

text \<open>The empty object \<open>{}\<close>.\<close>

definition noConfig :: PartialAuditConfig where
  "noConfig = \<lparr>p_enableStructured = Absent, p_hashChain = Absent, p_hashAlgorithm = Absent,
     p_serviceName = Absent, p_serviceVersion = Absent, p_environment = Absent,
     p_retentionDays = Absent, p_enableSignatures = Absent, p_signingKey = Absent,
     p_sinks = Absent, p_includeStackTraces = Absent, p_autoDelete = Absent,
     p_bufferSize = Absent, p_flushInterval = Absent, p_store = Absent\<rparr>"

text \<open>The three variables of \<open>process.env\<close> that the defaults read.\<close>

record ProcessEnv =
  SERVICE_NAME :: "string option"
  SERVICE_VERSION :: "string option"
  NODE_ENV :: "string option"

text \<open>\<open>x ?? d\<close>, and a parameter \<open>x\<close> with the default \<open>d\<close>.\<close>

definition orElse :: "'a option \<Rightarrow> 'a \<Rightarrow> 'a" where
  "orElse x d = (case x of None \<Rightarrow> d | Some v \<Rightarrow> v)"

definition defaultAuditConfig :: "ProcessEnv \<Rightarrow> AuditConfig" where
  "defaultAuditConfig env =
     \<lparr>enableStructured = Some True, hashChain = Some False, hashAlgorithm = Some sha256,
      serviceName = Some (orElse (SERVICE_NAME env) ''unknown''),
      serviceVersion = Some (orElse (SERVICE_VERSION env) ''0.0.0''),
      environment = Some (orElse (NODE_ENV env) ''development''),
      retentionDays = Some 365, enableSignatures = Some False, signingKey = None,
      sinks = Some [ConsoleSink],
      includeStackTraces = Some (NODE_ENV env \<noteq> Some ''production''),
      autoDelete = Some False, bufferSize = Some 100, flushInterval = Some 1000,
      store_config = None\<rparr>"

text \<open>
  One field of the spread \<open>{...base, ...config}\<close>: a key that \<open>config\<close> has overwrites
  the base, with its value or with undefined; a key that it lacks leaves the base.
\<close>

definition pick :: "'a option \<Rightarrow> 'a field \<Rightarrow> 'a option" where
  "pick b f = (case f of Absent \<Rightarrow> b | Undefined \<Rightarrow> None | Value v \<Rightarrow> Some v)"

definition overlay :: "AuditConfig \<Rightarrow> PartialAuditConfig \<Rightarrow> AuditConfig" where
  "overlay base p =
     \<lparr>enableStructured = pick (enableStructured base) (p_enableStructured p),
      hashChain = pick (hashChain base) (p_hashChain p),
      hashAlgorithm = pick (hashAlgorithm base) (p_hashAlgorithm p),
      serviceName = pick (serviceName base) (p_serviceName p),
      serviceVersion = pick (serviceVersion base) (p_serviceVersion p),
      environment = pick (environment base) (p_environment p),
      retentionDays = pick (retentionDays base) (p_retentionDays p),
      enableSignatures = pick (enableSignatures base) (p_enableSignatures p),
      signingKey = pick (signingKey base) (p_signingKey p),
      sinks = pick (sinks base) (p_sinks p),
      includeStackTraces = pick (includeStackTraces base) (p_includeStackTraces p),
      autoDelete = pick (autoDelete base) (p_autoDelete p),
      bufferSize = pick (bufferSize base) (p_bufferSize p),
      flushInterval = pick (flushInterval base) (p_flushInterval p),
      store_config = pick (store_config base) (p_store p)\<rparr>"

text \<open>
  A configuration object where a partial one is expected. A merged configuration
  has every key of the defaults, so each of those is present, with its value or
  with undefined. The key \<open>store\<close> is not among the defaults; whether it is absent or
  undefined makes no difference to any read, and it is taken as absent.
\<close>

definition present :: "'a option \<Rightarrow> 'a field" where
  "present x = (case x of None \<Rightarrow> Undefined | Some v \<Rightarrow> Value v)"

definition asPartial :: "AuditConfig \<Rightarrow> PartialAuditConfig" where
  "asPartial c =
     \<lparr>p_enableStructured = present (enableStructured c), p_hashChain = present (hashChain c),
      p_hashAlgorithm = present (hashAlgorithm c), p_serviceName = present (serviceName c),
      p_serviceVersion = present (serviceVersion c), p_environment = present (environment c),
      p_retentionDays = present (retentionDays c),
      p_enableSignatures = present (enableSignatures c),
      p_signingKey = present (signingKey c), p_sinks = present (sinks c),
      p_includeStackTraces = present (includeStackTraces c),
      p_autoDelete = present (autoDelete c), p_bufferSize = present (bufferSize c),
      p_flushInterval = present (flushInterval c),
      p_store = (case store_config c of None \<Rightarrow> Absent | Some sc \<Rightarrow> Value sc)\<rparr>"

definition mergeAuditConfig :: "ProcessEnv \<Rightarrow> PartialAuditConfig \<Rightarrow> AuditConfig" where
  "mergeAuditConfig env config = overlay (defaultAuditConfig env) config"

section \<open>Audit logger (src/audit/logger.ts)\<close>

text \<open>
  The logger holds its store behind the \<open>AuditStore\<close> interface, and \<open>setStore\<close>
  accepts any implementation. The model is therefore polymorphic in the state \<open>'s\<close> of
  the store, and \<open>log\<close> and \<open>close\<close> take the store's method as an argument: a write
  returns the store after the call and the promise of the call.
\<close>

record 's AuditLogger =
  config :: AuditConfig
  logger_chain :: "HashChain option"
  store :: 's
  sinkWriter :: SinkWriter

type_synonym 's store_write = "'s \<Rightarrow> AuditEntry \<Rightarrow> 's \<times> unit promise"

text \<open>The memory store behind the interface: its \<open>write\<close> never rejects.\<close>

definition memoryWrite :: "MemoryStore store_write" where
  "memoryWrite s entry = (MemoryStore_write s entry, Inr ())"

text \<open>
  The constructor, with the store that \<open>createStore\<close> made from the configuration as
  the argument \<open>st\<close>. \<open>if (this.config.hashChain)\<close> holds for the value true only.
\<close>

definition AuditLogger_new ::
  "digest \<Rightarrow> ProcessEnv \<Rightarrow> 's \<Rightarrow> PartialAuditConfig \<Rightarrow> 's AuditLogger" where
  "AuditLogger_new H env st p =
     (let cfg = mergeAuditConfig env p
      in \<lparr>config = cfg,
          logger_chain = (if hashChain cfg = Some True
                          then Some (HashChain_new H (hashAlgorithm cfg))
                          else None),
          store = st,
          sinkWriter = SinkWriter_new (sinks cfg)\<rparr>)"

text \<open>
  The object literal at the head of \<open>log\<close>: \<open>...event\<close> keeps every field of the event,
  then \<open>actor\<close> and \<open>resource\<close> are set, each to the event's own object or, when that
  is absent (\<open>??\<close>), to a new object built from the shorthand fields.
\<close>

definition normalizeEvent :: "AuditEvent \<Rightarrow> AuditEvent" where
  "normalizeEvent ev =
     ev\<lparr>actor := Some (case actor ev of
                         Some a \<Rightarrow> a
                       | None \<Rightarrow> \<lparr>actor_id = actorId ev, actor_type = actorType ev,
                                   actor_name = None, actor_ip = actorIp ev,
                                   actor_userAgent = None, actor_sessionId = None,
                                   actor_metadata = None\<rparr>),
        resource := Some (case resource ev of
                            Some r \<Rightarrow> r
                          | None \<Rightarrow> \<lparr>resource_id = resourceId ev,
                                      resource_type = resourceType ev,
                                      resource_name = None, resource_path = None,
                                      resource_metadata = None\<rparr>)\<rparr>"

definition newEntry :: "AuditConfig \<Rightarrow> string \<Rightarrow> int \<Rightarrow> AuditEvent \<Rightarrow> AuditEntry" where
  "newEntry cfg uuid now ev =
     \<lparr>entry_id = uuid, timestamp = now, event = normalizeEvent ev,
      service = Some \<lparr>service_name = serviceName cfg, service_version = serviceVersion cfg,
                      service_environment = environment cfg\<rparr>,
      chain = None, signature = None\<rparr>"

text \<open>
  \<open>if (this.chain) entry.chain = this.chain.addEntry(entry)\<close>: the entry with its chain
  data, and the chain instance after the call.
\<close>

definition chainEntry ::
  "digest \<Rightarrow> stringify \<Rightarrow> HashChain option \<Rightarrow> AuditEntry \<Rightarrow> AuditEntry \<times> HashChain option" where
  "chainEntry H J ch entry =
     (case ch of
        None \<Rightarrow> (entry, None)
      | Some c \<Rightarrow> (let (ce, c') = addEntry H J c entry
                  in (entry\<lparr>chain := Some ce\<rparr>, Some c')))"

text \<open>
  \<open>log\<close>, with \<open>uuid\<close> the value of \<open>randomUUID()\<close>, \<open>now\<close> that of \<open>new Date()\<close> and
  \<open>tr\<close> the calls made outside the program before it. The result is the logger
  after the call, the calls made outside the program up to its end, and the promise
  that \<open>log\<close> returns. Each \<open>await\<close> passes a rejection on to the caller.
\<close>

definition log ::
  "digest \<Rightarrow> stringify \<Rightarrow> respond \<Rightarrow> 's store_write \<Rightarrow> 's AuditLogger \<Rightarrow> string \<Rightarrow> int
   \<Rightarrow> AuditEvent \<Rightarrow> IOCall list \<Rightarrow> 's AuditLogger \<times> IOCall list \<times> AuditEntry promise" where
  "log H J R wr lg uuid now ev tr =
     (let (entry, ch) = chainEntry H J (logger_chain lg) (newEntry (config lg) uuid now ev);
          (st, written) = wr (store lg) entry;
          lg' = lg\<lparr>logger_chain := ch, store := st\<rparr>
      in case written of
           Inl r \<Rightarrow> (lg', tr, Inl r)
         | Inr u \<Rightarrow>
             (case SinkWriter_write R (sinkWriter lg) entry tr of
                (tr', Inl r) \<Rightarrow> (lg', tr', Inl r)
              | (tr', Inr u') \<Rightarrow> (lg', tr', Inr entry)))"

text \<open>
  \<open>setConfig\<close>: the new configuration is the spread of the old one and the argument,
  merged over the defaults. Then the chain is set when the argument's \<open>hashChain\<close>
  is not undefined (\<open>config.hashChain !== undefined\<close>: the key is present with a
  value), and the sink writer when the argument's \<open>sinks\<close> is a list
  (\<open>if (config.sinks)\<close>, which holds for every array).
\<close>

definition setConfig ::
  "digest \<Rightarrow> ProcessEnv \<Rightarrow> 's AuditLogger \<Rightarrow> PartialAuditConfig \<Rightarrow> 's AuditLogger" where
  "setConfig H env lg p =
     (let cfg = mergeAuditConfig env (asPartial (overlay (config lg) p));
          lg1 = lg\<lparr>config := cfg\<rparr>;
          lg2 = (case p_hashChain p of
                   Value b \<Rightarrow>
                     lg1\<lparr>logger_chain :=
                           (if b then Some (HashChain_new H (hashAlgorithm cfg)) else None)\<rparr>
                 | Absent \<Rightarrow> lg1
                 | Undefined \<Rightarrow> lg1)
      in case p_sinks p of
           Value ss \<Rightarrow> lg2\<lparr>sinkWriter := SinkWriter_new (Some ss)\<rparr>
         | Absent \<Rightarrow> lg2
         | Undefined \<Rightarrow> lg2)"

definition setStore :: "'s AuditLogger \<Rightarrow> 't \<Rightarrow> 't AuditLogger" where
  "setStore lg st =
     \<lparr>config = config lg, logger_chain = logger_chain lg, store = st,
      sinkWriter = sinkWriter lg\<rparr>"

text \<open>\<open>close\<close> closes the store; \<open>cl\<close> is the store's \<open>close\<close> method.\<close>

definition AuditLogger_close :: "('s \<Rightarrow> 's) \<Rightarrow> 's AuditLogger \<Rightarrow> 's AuditLogger" where
  "AuditLogger_close cl lg = lg\<lparr>store := cl (store lg)\<rparr>"

text \<open>The logger's \<open>query\<close> on a memory store delegates to the store.\<close>

definition AuditLogger_query ::
  "lowercase \<Rightarrow> MemoryStore AuditLogger \<Rightarrow> AuditQuery \<Rightarrow> AuditQueryResult" where
  "AuditLogger_query lower lg q = query lower (store lg) q"

text \<open>The logger's \<open>verifyChain\<close>: nothing to check when chaining is off.\<close>

definition AuditLogger_verifyChain ::
  "digest \<Rightarrow> 's AuditLogger \<Rightarrow> AuditEntry list \<Rightarrow> VerifyResult" where
  "AuditLogger_verifyChain H lg es =
     (case logger_chain lg of None \<Rightarrow> verified | Some c \<Rightarrow> verifyChain H c es)"

section \<open>Runs of the program\<close>

text \<open>
  The chain entries returned by successive \<open>addEntry\<close> calls on one instance, in
  write order.
\<close>

fun addEntries :: "digest \<Rightarrow> stringify \<Rightarrow> HashChain \<Rightarrow> AuditEntry list \<Rightarrow> ChainEntry list" where
  "addEntries H J c [] = []"
| "addEntries H J c (e # es) =
     (case addEntry H J c e of (ce, c') \<Rightarrow> ce # addEntries H J c' es)"

text \<open>
  The entries themselves, each carrying the chain data that \<open>addEntry\<close> returned for
  it, as \<open>log\<close> attaches it.
\<close>

fun chained :: "digest \<Rightarrow> stringify \<Rightarrow> HashChain \<Rightarrow> AuditEntry list \<Rightarrow> AuditEntry list" where
  "chained H J c [] = []"
| "chained H J c (e # es) =
     (case addEntry H J c e of (ce, c') \<Rightarrow> e\<lparr>chain := Some ce\<rparr> # chained H J c' es)"

text \<open>Successive writes to a memory store.\<close>

definition writeAll :: "MemoryStore \<Rightarrow> AuditEntry list \<Rightarrow> MemoryStore" where
  "writeAll s es = foldl MemoryStore_write s es"

text \<open>
  Concrete values at which the theorems below are evaluated: a digest and a
  serialisation that stand for the runtime's, an event, an entry, a query without
  filters, and a lower-casing of the ASCII letters.
\<close>

definition sampleDigest :: digest where
  "sampleDigest alg s = (case alg of sha256 \<Rightarrow> ''sha256:'' | sha512 \<Rightarrow> ''sha512:'') @ s"

definition sampleStringify :: stringify where
  "sampleStringify d =
     data_id d @ ''|'' @ action (data_event d) @ ''|'' @ data_previousHash d"

definition sampleEvent :: "string \<Rightarrow> AuditEvent" where
  "sampleEvent a =
     \<lparr>event_type = AUTH, action = a, outcome = SUCCESS, description = None,
      actor = None, actorId = None, actorType = None, actorIp = None,
      resource = None, resourceId = None, resourceType = None, trace = None,
      requestId = None, data = None, tags = None, durationMs = None,
      event_error = None\<rparr>"

definition sampleEntry :: "string \<Rightarrow> int \<Rightarrow> AuditEntry" where
  "sampleEntry i t =
     \<lparr>entry_id = i, timestamp = t, event = sampleEvent ''login'', service = None,
      chain = None, signature = None\<rparr>"

definition noQuery :: AuditQuery where
  "noQuery = \<lparr>timeRange = None, eventTypes = None, actions = None, outcomes = None,
     actorIds = None, resourceTypes = None, resourceIds = None, query_tags = None,
     search = None, limit = None, offset = None, sort_order = None\<rparr>"

definition asciiLower :: lowercase where
  "asciiLower s =
     map (\<lambda>c. if (65::nat) \<le> of_char c \<and> of_char c \<le> (90::nat)
              then char_of (of_char c + (32::nat)) else c) s"

definition sampleEnv :: ProcessEnv where
  "sampleEnv = \<lparr>SERVICE_NAME = None, SERVICE_VERSION = None, NODE_ENV = None\<rparr>"

text \<open>The last \<open>n\<close> elements of a list (the whole list when it has fewer).\<close>

definition lastN :: "int \<Rightarrow> 'a list \<Rightarrow> 'a list" where
  "lastN n xs = drop (length xs - nat n) xs"

text \<open>
  The entry that a call of \<open>log\<close> builds: the new entry, with its chain data when the
  logger has a chain.
\<close>

definition loggedEntry ::
  "digest \<Rightarrow> stringify \<Rightarrow> 's AuditLogger \<Rightarrow> string \<Rightarrow> int \<Rightarrow> AuditEvent \<Rightarrow> AuditEntry" where
  "loggedEntry H J lg uuid now ev =
     fst (chainEntry H J (logger_chain lg) (newEntry (config lg) uuid now ev))"

text \<open>
  The call that delivers an entry to a sink: what a delivery attempt to that sink
  is.
\<close>

definition sinkCall :: "AuditSink \<Rightarrow> AuditEntry \<Rightarrow> IOCall" where
  "sinkCall sink entry =
     (case sink of
        ConsoleSink \<Rightarrow> ConsoleLog entry
      | FileSink path rot \<Rightarrow> AppendFile path entry
      | WebhookSink url headers \<Rightarrow> Fetch url (webhookHeaders headers) entry
      | CustomSink handler \<Rightarrow> InvokeHandler handler entry)"

text \<open>
  More concrete values: an environment in which every call fulfils and one in
  which every call rejects, a custom handler that throws, one sink of each kind, a
  logger with chaining on over a memory store, the same logger after one \<open>log\<close>
  call, and an actor object.
\<close>

definition quietRespond :: respond where
  "quietRespond tr c = Inr ()"


definition failingHandler :: "AuditEntry \<Rightarrow> unit promise" where
  "failingHandler e = Inl ''handler threw''"

definition allSinks :: "AuditSink list" where
  "allSinks = [ConsoleSink, FileSink ''audit.jsonl'' None, WebhookSink ''http://hook'' None,
               CustomSink failingHandler]"

definition sampleLogger :: "MemoryStore AuditLogger" where
  "sampleLogger =
     AuditLogger_new sampleDigest sampleEnv (MemoryStore_new None)
       (noConfig\<lparr>p_hashChain := Value True, p_sinks := Value allSinks\<rparr>)"

definition loggedOnce :: "MemoryStore AuditLogger" where
  "loggedOnce =
     fst (log sampleDigest sampleStringify quietRespond memoryWrite sampleLogger ''id1'' 1
            (sampleEvent ''login'') [])"

definition fullActor :: AuditActor where
  "fullActor = \<lparr>actor_id = Some ''u-1'', actor_type = Some ''user'', actor_name = Some ''Ann'',
                 actor_ip = None, actor_userAgent = None, actor_sessionId = None,
                 actor_metadata = None\<rparr>"

section \<open>The chain produced by one instance\<close>

lemma addEntries_length: "length (addEntries H J c es) = length es"
  by (induction es arbitrary: c) (auto simp: addEntry_def Let_def)

lemma addEntries_links:
  "Suc i < length es \<Longrightarrow>
     previousHash (addEntries H J c es ! Suc i) = hash (addEntries H J c es ! i)
     \<and> sequence (addEntries H J c es ! Suc i) = sequence (addEntries H J c es ! i) + 1"
proof (induction es arbitrary: c i)
  case Nil
  then show ?case by simp
next
  case (Cons e es)
  show ?case
  proof (cases i)
    case 0
    with Cons.prems obtain e' es' where "es = e' # es'" by (cases es) auto
    with 0 show ?thesis by (simp add: addEntry_def Let_def)
  next
    case (Suc j)
    with Cons.prems have "Suc j < length es" by simp
    from Cons.IH [OF this] Suc show ?thesis by (simp add: addEntry_def Let_def)
  qed
qed

lemma addEntries_first:
  "es \<noteq> [] \<Longrightarrow> previousHash (addEntries H J c es ! 0) = this_previousHash c
     \<and> sequence (addEntries H J c es ! 0) = this_sequence c"
  by (cases es) (auto simp: addEntry_def Let_def)

text \<open>
  C2. Let one \<open>HashChain\<close> instance, fresh from its constructor, answer successive
  \<open>addEntry\<close> calls. There is one chain entry per call; each chain entry after the
  first has the hash of the one before it as its \<open>previousHash\<close> and a \<open>sequence\<close>
  one greater; and the first has as its \<open>previousHash\<close> the digest of the string
  \<open>GENESIS\<close> under the configured algorithm (\<open>sha256\<close> when none is given).
\<close>

theorem chain_contiguity:
  "(\<forall>i. Suc i < length es \<longrightarrow>
       previousHash (addEntries H J (HashChain_new H alg) es ! Suc i)
         = hash (addEntries H J (HashChain_new H alg) es ! i)
       \<and> sequence (addEntries H J (HashChain_new H alg) es ! Suc i)
         = sequence (addEntries H J (HashChain_new H alg) es ! i) + 1)
   \<and> (es \<noteq> [] \<longrightarrow>
       previousHash (addEntries H J (HashChain_new H alg) es ! 0)
         = H (case alg of None \<Rightarrow> sha256 | Some a \<Rightarrow> a) ''GENESIS'')
   \<and> length (addEntries H J (HashChain_new H alg) es) = length es"
  using addEntries_links [of _ es H J "HashChain_new H alg"]
    addEntries_first [of es H J "HashChain_new H alg"]
  by (simp add: addEntries_length HashChain_new_def computeGenesisHash_def Let_def)

theorem chain_contiguity_witness:
  "Suc 0 < length [sampleEntry ''e1'' 1, sampleEntry ''e2'' 2]
   \<and> previousHash (addEntries sampleDigest sampleStringify (HashChain_new sampleDigest None)
                      [sampleEntry ''e1'' 1, sampleEntry ''e2'' 2] ! Suc 0)
     = hash (addEntries sampleDigest sampleStringify (HashChain_new sampleDigest None)
               [sampleEntry ''e1'' 1, sampleEntry ''e2'' 2] ! 0)
   \<and> sequence (addEntries sampleDigest sampleStringify (HashChain_new sampleDigest None)
                  [sampleEntry ''e1'' 1, sampleEntry ''e2'' 2] ! Suc 0) = 1
   \<and> [sampleEntry ''e1'' 1, sampleEntry ''e2'' 2] \<noteq> []
   \<and> previousHash (addEntries sampleDigest sampleStringify (HashChain_new sampleDigest None)
                      [sampleEntry ''e1'' 1, sampleEntry ''e2'' 2] ! 0)
     = sampleDigest sha256 ''GENESIS''"
  using chain_contiguity [of "[sampleEntry ''e1'' 1, sampleEntry ''e2'' 2]"
      sampleDigest sampleStringify None]
  by (simp add: addEntry_def HashChain_new_def Let_def)

section \<open>Verifying a chain\<close>

lemma sequenceKey_chain [simp]: "sequenceKey (e\<lparr>chain := Some ce\<rparr>) = sequence ce"
  by (simp add: sequenceKey_def)

lemma chained_keys:
  "map sequenceKey (chained H J c es) = [this_sequence c ..< this_sequence c + length es]"
proof (induction es arbitrary: c)
  case Nil
  show ?case by simp
next
  case (Cons e es)
  obtain ce c' where a: "addEntry H J c e = (ce, c')" by (cases "addEntry H J c e")
  then have ce: "sequence ce = this_sequence c" and c': "this_sequence c' = Suc (this_sequence c)"
    by (auto simp: addEntry_def Let_def)
  have "[this_sequence c ..< this_sequence c + length (e # es)]
        = this_sequence c # [Suc (this_sequence c) ..< this_sequence c + length (e # es)]"
    by (rule upt_conv_Cons) simp
  moreover have "this_sequence c + length (e # es) = Suc (this_sequence c) + length es"
    by simp
  ultimately have "[this_sequence c ..< this_sequence c + length (e # es)]
        = sequence ce # map sequenceKey (chained H J c' es)"
    using Cons.IH [of c'] ce c' by (simp only:)
  then show ?case using a by simp
qed

lemma chained_chain: "map chain (chained H J c es) = map Some (addEntries H J c es)"
  by (induction es arbitrary: c) (auto simp: addEntry_def Let_def)

lemma verifyLinks_chained:
  "chain prev = Some pc \<Longrightarrow> hash pc = this_previousHash c \<Longrightarrow>
   sequence pc + 1 = this_sequence c \<Longrightarrow> verifyLinks i prev (chained H J c es) = verified"
proof (induction es arbitrary: c prev pc i)
  case Nil
  show ?case by simp
next
  case (Cons e es)
  show ?case using Cons.prems
    by (simp add: addEntry_def Let_def Cons.IH)
qed

lemma filter_key_distinct:
  "distinct (map f zs) \<Longrightarrow> k \<in> set zs \<Longrightarrow> filter (\<lambda>x. f k = f x) zs = [k]"
proof (induction zs)
  case Nil
  then show ?case by simp
next
  case (Cons z zs)
  show ?case
  proof (cases "k = z")
    case True
    with Cons.prems have "\<forall>x \<in> set zs. f z \<noteq> f x" by auto
    then have "filter (\<lambda>x. f z = f x) zs = []" by (simp add: filter_empty_conv)
    with True show ?thesis by simp
  next
    case False
    with Cons.prems have k: "k \<in> set zs" and d: "distinct (map f zs)" and "f z \<notin> f ` set zs"
      by auto
    then have "f k \<noteq> f z" by (metis imageI)
    with Cons.IH [OF d k] show ?thesis by simp
  qed
qed

lemma sort_key_unique:
  assumes "mset ys = mset xs" and "sorted (map f xs)" and "distinct (map f xs)"
  shows "sort_key f ys = xs"
proof (rule properties_for_sort_key)
  show "mset xs = mset ys" using assms(1) by simp
  show "sorted (map f xs)" by (rule assms(2))
  have "mset (map f ys) = mset (map f xs)" using assms(1) by simp
  then have dy: "distinct (map f ys)" using assms(3) by (metis mset_eq_imp_distinct_iff)
  have s: "set ys = set xs" using assms(1) by (rule mset_eq_setD)
  fix k assume "k \<in> set xs"
  then show "filter (\<lambda>x. f k = f x) xs = filter (\<lambda>x. f k = f x) ys"
    using filter_key_distinct [OF assms(3), of k] filter_key_distinct [OF dy, of k] s by simp
qed

lemma sortBySequence_chained:
  assumes "mset ys = mset (chained H J (HashChain_new H alg) es)"
  shows "sortBySequence ys = chained H J (HashChain_new H alg) es"
  unfolding sortBySequence_def using assms
  by (rule sort_key_unique) (simp_all add: chained_keys)

lemma verifyChain_chained:
  assumes "mset ys = mset (chained H J (HashChain_new H alg) es)"
    and "algorithm c = (case alg of None \<Rightarrow> sha256 | Some a \<Rightarrow> a)"
  shows "verifyChain H c ys = verified"
proof -
  let ?c0 = "HashChain_new H alg"
  let ?xs = "chained H J ?c0 es"
  have "sortBySequence ys = ?xs"
    using assms(1) by (rule sortBySequence_chained)
  moreover have "case ?xs of [] \<Rightarrow> True | first # rest \<Rightarrow>
       (\<exists>fc. chain first = Some fc \<and> sequence fc = 0
          \<and> previousHash fc = computeGenesisHash H (algorithm c))
       \<and> verifyLinks 1 first rest = verified"
  proof (cases es)
    case Nil
    then show ?thesis by simp
  next
    case (Cons e es')
    show ?thesis using assms(2)
      by (simp add: Cons addEntry_def Let_def HashChain_new_def verifyLinks_chained)
  qed
  ultimately show ?thesis
    by (auto simp: verifyChain_def split: list.splits)
qed

lemma map_insort_key:
  "map h (insort_key (\<lambda>x. g (h x)) x xs) = insort_key g (h x) (map h xs)"
  by (induction xs) auto

lemma map_sort_key_comp:
  "map h (sort_key (\<lambda>x. g (h x)) xs) = sort_key g (map h xs)"
  by (induction xs) (auto simp: map_insort_key)

lemma verifyLinks_cong:
  "chain p = chain p' \<Longrightarrow> map chain r = map chain r' \<Longrightarrow>
   verifyLinks i p r = verifyLinks i p' r'"
proof (induction r arbitrary: r' p p' i)
  case Nil
  then show ?case by simp
next
  case (Cons x r)
  then obtain y r2 where r': "r' = y # r2" by (cases r') auto
  with Cons.prems have xy: "chain x = chain y" and rr: "map chain r = map chain r2" by auto
  from Cons.IH [OF xy rr] Cons.prems(1) xy show ?case
    by (simp add: r' split: option.splits)
qed

lemma verifyChain_cong:
  assumes "map chain ys = map chain xs"
  shows "verifyChain H c ys = verifyChain H c xs"
proof -
  have k: "sequenceKey = (\<lambda>e. (case chain e of None \<Rightarrow> 0 | Some ce \<Rightarrow> sequence ce))"
    by (rule ext) (simp add: sequenceKey_def)
  have "map chain (sortBySequence ys) = map chain (sortBySequence xs)"
    unfolding sortBySequence_def k
    by (simp only: map_sort_key_comp [of chain "\<lambda>c. case c of None \<Rightarrow> 0 | Some ce \<Rightarrow> sequence ce"] assms)
  then show ?thesis
    unfolding verifyChain_def
    by (cases "sortBySequence ys"; cases "sortBySequence xs")
       (auto simp: verifyLinks_cong split: option.splits)
qed

lemma verifyChain_event_update:
  "verifyChain H c (xs[i := (xs ! i)\<lparr>event := ev\<rparr>]) = verifyChain H c xs"
proof (rule verifyChain_cong)
  show "map chain (xs[i := (xs ! i)\<lparr>event := ev\<rparr>]) = map chain xs"
    by (cases "i < length xs") (simp_all add: map_update list_update_same_conv list_update_beyond)
qed

text \<open>
  C3. Take the entries that one fresh \<open>HashChain\<close> instance has chained, untampered,
  in any order (any list with the same entries), and verify them with an instance
  of the same algorithm: \<open>verifyChain\<close> returns \<open>{valid: true}\<close>. The sort by
  \<open>sequence\<close> restores the write order whatever the input order was, so the result
  is the same for every permutation.
\<close>

theorem verifyChain_any_order:
  "mset ys = mset (chained H J (HashChain_new H alg) es) \<Longrightarrow>
   algorithm c = (case alg of None \<Rightarrow> sha256 | Some a \<Rightarrow> a) \<Longrightarrow>
   verifyChain H c ys = \<lparr>valid = True, brokenAt = None, verify_error = None\<rparr>
   \<and> sortBySequence ys = chained H J (HashChain_new H alg) es"
  using verifyChain_chained [of ys H J alg es c] sortBySequence_chained [of ys H J alg es]
  by (simp add: verified_def)

theorem verifyChain_any_order_witness:
  "mset (rev (chained sampleDigest sampleStringify (HashChain_new sampleDigest None)
                [sampleEntry ''e1'' 1, sampleEntry ''e2'' 2, sampleEntry ''e3'' 3]))
     = mset (chained sampleDigest sampleStringify (HashChain_new sampleDigest None)
                [sampleEntry ''e1'' 1, sampleEntry ''e2'' 2, sampleEntry ''e3'' 3])
   \<and> algorithm (HashChain_new sampleDigest None) = sha256
   \<and> verifyChain sampleDigest (HashChain_new sampleDigest None)
        (rev (chained sampleDigest sampleStringify (HashChain_new sampleDigest None)
                [sampleEntry ''e1'' 1, sampleEntry ''e2'' 2, sampleEntry ''e3'' 3]))
     = \<lparr>valid = True, brokenAt = None, verify_error = None\<rparr>"
  using verifyChain_any_order [of
      "rev (chained sampleDigest sampleStringify (HashChain_new sampleDigest None)
              [sampleEntry ''e1'' 1, sampleEntry ''e2'' 2, sampleEntry ''e3'' 3])"
      sampleDigest sampleStringify None
      "[sampleEntry ''e1'' 1, sampleEntry ''e2'' 2, sampleEntry ''e3'' 3]"
      "HashChain_new sampleDigest None"]
  by (simp add: HashChain_new_def)

text \<open>
  \<open>verifyEntry\<close> does recompute the digest: on a chained entry whose event was
  changed afterwards it returns false (here with the sample digest).
\<close>

lemma verifyEntry_detects_changed_event:
  "\<not> verifyEntry sampleDigest sampleStringify (HashChain_new sampleDigest None)
       ((chained sampleDigest sampleStringify (HashChain_new sampleDigest None)
           [sampleEntry ''e1'' 1, sampleEntry ''e2'' 2] ! 0)
        \<lparr>event := sampleEvent ''forged''\<rparr>)
       (computeGenesisHash sampleDigest sha256)"
  by (simp add: addEntry_def HashChain_new_def computeGenesisHash_def computeHash_def
      verifyEntry_def Let_def sampleEntry_def sampleEvent_def sampleDigest_def
      sampleStringify_def)

text \<open>
  C1. \<open>verifyChain\<close> compares the stored \<open>previousHash\<close> and \<open>sequence\<close> values of
  neighbouring entries and never recomputes a hash, so it does not see a changed
  event. Two entries are chained by a fresh instance; the event of the first is then
  replaced and its stored hash kept. Whatever the digest and the serialisation are,
  \<open>verifyChain\<close> still returns \<open>{valid: true}\<close>, with no \<open>brokenAt\<close>.
\<close>

theorem verifyChain_misses_changed_event:
  "verifyChain H (HashChain_new H None)
     ((chained H J (HashChain_new H None) [sampleEntry ''e1'' 1, sampleEntry ''e2'' 2])
      [0 := (chained H J (HashChain_new H None) [sampleEntry ''e1'' 1, sampleEntry ''e2'' 2] ! 0)
            \<lparr>event := sampleEvent ''forged''\<rparr>])
     = \<lparr>valid = True, brokenAt = None, verify_error = None\<rparr>
   \<and> event (chained H J (HashChain_new H None) [sampleEntry ''e1'' 1, sampleEntry ''e2'' 2] ! 0)
     \<noteq> sampleEvent ''forged''"
  by (simp add: verifyChain_def sortBySequence_def sequenceKey_def addEntry_def
      HashChain_new_def computeGenesisHash_def Let_def verified_def sampleEntry_def
      sampleEvent_def)

section \<open>The memory store\<close>

lemma slice_nonneg:
  "0 \<le> a \<Longrightarrow> 0 \<le> n \<Longrightarrow> slice xs a (Some (a + n)) = take (nat n) (drop (nat a) xs)"
proof -
  assume a: "0 \<le> a" and n: "0 \<le> n"
  let ?len = "int (length xs)"
  have "take (nat (min (a + n) ?len - min a ?len)) (drop (nat (min a ?len)) xs)
        = take (nat n) (drop (nat a) xs)"
  proof (cases "a \<le> ?len")
    case True
    then have k: "min a ?len = a" by simp
    have "take (nat (min (a + n) ?len - a)) (drop (nat a) xs) = take (nat n) (drop (nat a) xs)"
    proof (cases "a + n \<le> ?len")
      case True
      then show ?thesis by simp
    next
      case False
      then have "min (a + n) ?len = ?len" by simp
      moreover have "length (drop (nat a) xs) = nat (?len - a)" using a by simp
      moreover have "nat (?len - a) \<le> nat n" using False by simp
      ultimately show ?thesis by simp
    qed
    with k show ?thesis by simp
  next
    case False
    then have "length xs \<le> nat a" by simp
    then show ?thesis by simp
  qed
  with a n show ?thesis by (simp add: slice_def relativeIndex_def Let_def)
qed

lemma hasMore_iff:
  "0 \<le> a \<Longrightarrow> 0 \<le> n \<Longrightarrow>
     (a + int (length (take (nat n) (drop (nat a) xs))) < int (length xs))
      = (a + n < int (length xs))"
  by (auto simp: min_def)

lemma query_paged:
  assumes "0 \<le> orElse (offset q) 0" and "0 \<le> orElse (limit q) 100"
  shows "query lower s q =
     \<lparr>result_entries =
        take (nat (orElse (limit q) 100))
          (drop (nat (orElse (offset q) 0))
             (sortEntries (orElse (sort_order q) Desc) (applyFilters lower q (entries s)))),
      total = int (length (sortEntries (orElse (sort_order q) Desc) (applyFilters lower q (entries s)))),
      hasMore = (orElse (offset q) 0 + orElse (limit q) 100
                 < int (length (sortEntries (orElse (sort_order q) Desc)
                                  (applyFilters lower q (entries s)))))\<rparr>"
proof -
  have d: "(case offset q of None \<Rightarrow> 0 | Some v \<Rightarrow> v) = orElse (offset q) 0"
    "(case limit q of None \<Rightarrow> 100 | Some v \<Rightarrow> v) = orElse (limit q) 100"
    "(case sort_order q of None \<Rightarrow> Desc | Some d \<Rightarrow> d) = orElse (sort_order q) Desc"
    by (simp_all add: orElse_def)
  show ?thesis
    unfolding query_def Let_def d
    by (simp only: slice_nonneg [OF assms] hasMore_iff [OF assms])
qed

lemma sortEntries_props:
  "mset (sortEntries d xs) = mset xs"
  "d = Asc \<Longrightarrow> sorted_wrt (\<lambda>a b. timestamp a \<le> timestamp b) (sortEntries d xs)"
  "d = Desc \<Longrightarrow> sorted_wrt (\<lambda>a b. timestamp a \<ge> timestamp b) (sortEntries d xs)"
proof -
  show "mset (sortEntries d xs) = mset xs" by (simp add: sortEntries_def)
  have "sorted (map (\<lambda>e. if d = Asc then timestamp e else - timestamp e) (sortEntries d xs))"
    unfolding sortEntries_def by (rule sorted_sort_key)
  then have s: "sorted_wrt (\<lambda>a b. (if d = Asc then timestamp a else - timestamp a)
                             \<le> (if d = Asc then timestamp b else - timestamp b)) (sortEntries d xs)"
    by (simp add: sorted_map)
  { assume "d = Asc" with s show "sorted_wrt (\<lambda>a b. timestamp a \<le> timestamp b) (sortEntries d xs)"
      by simp }
  { assume "d = Desc" with s show "sorted_wrt (\<lambda>a b. timestamp a \<ge> timestamp b) (sortEntries d xs)"
      by simp }
qed

lemma filterStart_Nil: "filterStart q [] = []"
  by (simp add: filterStart_def split: option.splits)

lemma filterEnd_Nil: "filterEnd q [] = []"
  by (simp add: filterEnd_def split: option.splits)

lemma filterList_Nil: "filterList a p [] = []"
  by (simp add: filterList_def split: option.splits)

lemma filterSearch_Nil: "filterSearch lower q [] = []"
  by (simp add: filterSearch_def Let_def split: option.splits)

lemma applyFilters_Nil: "applyFilters lower q [] = []"
  unfolding applyFilters_def
  by (simp only: filterStart_Nil filterEnd_Nil filterList_Nil filterSearch_Nil)

lemma slice_Nil: "slice [] a b = []"
  by (simp add: slice_def Let_def)

lemma query_closed:
  "result_entries (query lower (MemoryStore_close s) q) = [] \<and> total (query lower (MemoryStore_close s) q) = 0"
  by (simp add: query_def MemoryStore_close_def applyFilters_Nil sortEntries_def slice_Nil Let_def)

lemma slice_last:
  assumes "0 < n" and "n < int (length xs)"
  shows "slice xs (- n) None = drop (length xs - nat n) xs"
proof -
  have k: "relativeIndex (int (length xs)) (- n) = int (length xs) - n"
    using assms by (simp add: relativeIndex_def)
  have d: "nat (int (length xs) - n) = length xs - nat n"
    using assms by (simp add: nat_diff_distrib')
  have "length (drop (length xs - nat n) xs) \<le> nat n" by simp
  then have t: "take (nat n) (drop (length xs - nat n) xs) = drop (length xs - nat n) xs"
    by (rule take_all)
  have "slice xs (- n) None
        = take (nat (int (length xs) - (int (length xs) - n))) (drop (nat (int (length xs) - n)) xs)"
    unfolding slice_def Let_def k by simp
  also have "\<dots> = take (nat n) (drop (length xs - nat n) xs)" by (simp only: d) simp
  finally show ?thesis using t by simp
qed

lemma MemoryStore_write_lastN:
  assumes "0 < maxSize s"
  shows "MemoryStore_write s e = s\<lparr>entries := lastN (maxSize s) (entries s @ [e])\<rparr>"
proof (cases "int (length (entries s @ [e])) > maxSize s")
  case True
  from slice_last [OF assms True] True show ?thesis
    by (simp only: MemoryStore_write_def Let_def lastN_def if_True)
next
  case False
  then have "length (entries s @ [e]) - nat (maxSize s) = 0" by simp
  then have "lastN (maxSize s) (entries s @ [e]) = entries s @ [e]"
    unfolding lastN_def by (simp only: drop_0)
  with False show ?thesis by (simp only: MemoryStore_write_def Let_def if_False)
qed

lemma lastN_lastN_snoc: "0 < n \<Longrightarrow> lastN n (lastN n xs @ [e]) = lastN n (xs @ [e])"
proof -
  assume n: "0 < n"
  show ?thesis
  proof (cases "nat n \<le> length xs")
    case True
    then have "length (drop (length xs - nat n) xs) = nat n" by simp
    moreover have "Suc (length xs) - nat n = Suc (length xs - nat n)" using True by simp
    moreover have "Suc (nat n) - nat n = Suc 0" by simp
    ultimately show ?thesis unfolding lastN_def by simp
  next
    case False
    then show ?thesis by (simp add: lastN_def)
  qed
qed

lemma writeAll_lastN:
  "0 < maxSize s \<Longrightarrow>
   writeAll s es
     = s\<lparr>entries := (if es = [] then entries s else lastN (maxSize s) (entries s @ es))\<rparr>"
proof (induction es arbitrary: s rule: rev_induct)
  case Nil
  show ?case by (simp add: writeAll_def)
next
  case (snoc e es)
  show ?case
  proof (cases "es = []")
    case True
    with snoc.prems show ?thesis by (simp add: writeAll_def MemoryStore_write_lastN)
  next
    case False
    with snoc.IH [OF snoc.prems] snoc.prems
    have "writeAll s (es @ [e])
          = MemoryStore_write (s\<lparr>entries := lastN (maxSize s) (entries s @ es)\<rparr>) e"
      by (simp add: writeAll_def)
    with snoc.prems show ?thesis
      using lastN_lastN_snoc [of "maxSize s" "entries s @ es" e]
      by (simp add: MemoryStore_write_lastN)
  qed
qed

text \<open>
  With a positive \<open>maxSize\<close> the store holds the last \<open>maxSize\<close> entries written, and
  never more.
\<close>

lemma MemoryStore_keeps_last:
  assumes "0 < N"
  shows "entries (writeAll (MemoryStore_new (Some N)) es) = drop (length es - nat N) es"
    and "int (length (entries (writeAll (MemoryStore_new (Some N)) es))) \<le> N"
proof -
  have m: "0 < maxSize (MemoryStore_new (Some N))" using assms by (simp add: MemoryStore_new_def)
  show e: "entries (writeAll (MemoryStore_new (Some N)) es) = drop (length es - nat N) es"
    by (simp add: writeAll_lastN [OF m] lastN_def) (simp add: MemoryStore_new_def)
  show "int (length (entries (writeAll (MemoryStore_new (Some N)) es))) \<le> N"
    unfolding e using assms by simp
qed

text \<open>With \<open>maxSize = 0\<close> the trim is \<open>slice(-0)\<close>, the whole list: nothing is evicted.\<close>

lemma writeAll_zero: "maxSize s = 0 \<Longrightarrow> writeAll s es = s\<lparr>entries := entries s @ es\<rparr>"
proof (induction es arbitrary: s rule: rev_induct)
  case Nil
  show ?case by (simp add: writeAll_def)
next
  case (snoc e es)
  then show ?case
    by (simp add: writeAll_def MemoryStore_write_def slice_def relativeIndex_def Let_def)
qed

text \<open>
  C5 as it holds. For a query whose offset \<open>O\<close> (0 when absent) and limit \<open>L\<close>
  (100 when absent) are not negative, \<open>query\<close> returns the entries \<open>[O, O + L)\<close> of
  the full result: the stored entries that pass the filters, in descending order
  of timestamp unless the query asks for ascending. \<open>total\<close> is the length of the full result, and
  \<open>hasMore\<close> is true exactly when \<open>O + L < total\<close>.
\<close>

theorem query_pagination:
  "0 \<le> orElse (offset q) 0 \<Longrightarrow> 0 \<le> orElse (limit q) 100 \<Longrightarrow>
   query lower s q =
     \<lparr>result_entries =
        take (nat (orElse (limit q) 100))
          (drop (nat (orElse (offset q) 0))
             (sortEntries (orElse (sort_order q) Desc) (applyFilters lower q (entries s)))),
      total = int (length (applyFilters lower q (entries s))),
      hasMore = (orElse (offset q) 0 + orElse (limit q) 100
                 < int (length (applyFilters lower q (entries s))))\<rparr>
   \<and> mset (sortEntries (orElse (sort_order q) Desc) (applyFilters lower q (entries s)))
       = mset (applyFilters lower q (entries s))
   \<and> (sort_order q \<noteq> Some Asc \<longrightarrow>
        sorted_wrt (\<lambda>a b. timestamp a \<ge> timestamp b)
          (sortEntries (orElse (sort_order q) Desc) (applyFilters lower q (entries s))))
   \<and> (sort_order q = Some Asc \<longrightarrow>
        sorted_wrt (\<lambda>a b. timestamp a \<le> timestamp b)
          (sortEntries (orElse (sort_order q) Desc) (applyFilters lower q (entries s))))"
proof -
  assume a: "0 \<le> orElse (offset q) 0" "0 \<le> orElse (limit q) 100"
  have l: "length (sortEntries (orElse (sort_order q) Desc) (applyFilters lower q (entries s)))
           = length (applyFilters lower q (entries s))"
    by (simp add: sortEntries_def)
  have o: "sort_order q \<noteq> Some Asc \<Longrightarrow> orElse (sort_order q) Desc = Desc"
    by (cases "sort_order q") (auto simp: orElse_def intro: SortOrder.exhaust)
  have o': "sort_order q = Some Asc \<Longrightarrow> orElse (sort_order q) Desc = Asc"
    by (simp add: orElse_def)
  show ?thesis
    using query_paged [OF a, of lower s] sortEntries_props(2) [OF o']
      sortEntries_props(3) [OF o]
    by (simp add: l sortEntries_props(1))
qed

theorem query_pagination_witness:
  "0 \<le> orElse (offset (noQuery\<lparr>limit := Some 2, offset := Some 1\<rparr>)) 0
   \<and> 0 \<le> orElse (limit (noQuery\<lparr>limit := Some 2, offset := Some 1\<rparr>)) 100
   \<and> query asciiLower (writeAll (MemoryStore_new None)
               [sampleEntry ''e1'' 1, sampleEntry ''e2'' 2, sampleEntry ''e3'' 3,
                sampleEntry ''e4'' 4])
        (noQuery\<lparr>limit := Some 2, offset := Some 1\<rparr>)
     = \<lparr>result_entries = [sampleEntry ''e3'' 3, sampleEntry ''e2'' 2], total = 4,
        hasMore = True\<rparr>"
  using query_pagination [of "noQuery\<lparr>limit := Some 2, offset := Some 1\<rparr>" asciiLower
      "writeAll (MemoryStore_new None)
         [sampleEntry ''e1'' 1, sampleEntry ''e2'' 2, sampleEntry ''e3'' 3, sampleEntry ''e4'' 4]"]
  by (simp add: noQuery_def orElse_def writeAll_def MemoryStore_new_def MemoryStore_write_def
      applyFilters_def filterSearch_def filterList_def filterEnd_def filterStart_def
      sortEntries_def sampleEntry_def Let_def)

text \<open>
  C5 as stated fails for a negative offset, which \<open>slice\<close> counts from the end of
  the list. Four entries are stored and the query has offset \<open>-1\<close> and limit \<open>10\<close>:
  \<open>query\<close> returns the last entry of the sorted result alone, and \<open>hasMore\<close> is
  true, although \<open>O + L = 9\<close> is not less than \<open>total = 4\<close>.
\<close>

theorem query_negative_offset:
  "query asciiLower
     (writeAll (MemoryStore_new None)
        [sampleEntry ''e1'' 1, sampleEntry ''e2'' 2, sampleEntry ''e3'' 3, sampleEntry ''e4'' 4])
     (noQuery\<lparr>limit := Some 10, offset := Some (- 1)\<rparr>)
     = \<lparr>result_entries = [sampleEntry ''e1'' 1], total = 4, hasMore = True\<rparr>
   \<and> \<not> ((- 1) + 10 < (4::int))"
  by (simp add: query_def noQuery_def writeAll_def MemoryStore_new_def MemoryStore_write_def
      applyFilters_def filterSearch_def filterList_def filterEnd_def filterStart_def
      sortEntries_def sampleEntry_def slice_def relativeIndex_def Let_def)

text \<open>
  C6. A memory store made with \<open>maxSize = 0\<close> evicts nothing: after two writes it
  holds both entries, more than its \<open>maxSize\<close>.
\<close>

theorem MemoryStore_zero_keeps_all:
  "entries (writeAll (MemoryStore_new (Some 0)) [sampleEntry ''e1'' 1, sampleEntry ''e2'' 2])
     = [sampleEntry ''e1'' 1, sampleEntry ''e2'' 2]
   \<and> maxSize (writeAll (MemoryStore_new (Some 0)) [sampleEntry ''e1'' 1, sampleEntry ''e2'' 2])
     = 0"
  by (simp add: writeAll_def MemoryStore_new_def MemoryStore_write_def slice_def
      relativeIndex_def Let_def)

text \<open>
  C10. After \<open>close\<close> a memory store holds no entry, and every query on it, whatever
  its filters, returns no entries and \<open>total = 0\<close>; so does every query through a
  logger that was closed over a memory store.
\<close>

theorem close_discards_entries:
  "entries (MemoryStore_close s) = []
   \<and> result_entries (query lower (MemoryStore_close s) q) = []
   \<and> total (query lower (MemoryStore_close s) q) = 0
   \<and> result_entries (AuditLogger_query lower (AuditLogger_close MemoryStore_close lg) q) = []
   \<and> total (AuditLogger_query lower (AuditLogger_close MemoryStore_close lg) q) = 0"
  using query_closed [of lower "store lg" q] query_closed [of lower s q]
  by (simp add: AuditLogger_query_def AuditLogger_close_def MemoryStore_close_def)

section \<open>Verifying one entry\<close>

lemma verifyEntry_fields:
  "entry_id e1 = entry_id e2 \<Longrightarrow> timestamp e1 = timestamp e2 \<Longrightarrow> event e1 = event e2 \<Longrightarrow>
   chain e1 = chain e2 \<Longrightarrow> verifyEntry H J c e1 h = verifyEntry H J c e2 h"
  by (auto simp: verifyEntry_def computeHash_def split: option.splits)

text \<open>
  C9. Two entries with the same \<open>id\<close>, \<open>timestamp\<close>, \<open>event\<close> and \<open>chain\<close> get the same
  answer from \<open>verifyEntry\<close> for every expected previous hash, whatever their
  \<open>service\<close> and \<open>signature\<close> fields are: the digest is computed from
  \<open>{id, timestamp, event, previousHash}\<close> alone.
\<close>

theorem verifyEntry_ignores_service_signature:
  "entry_id e1 = entry_id e2 \<Longrightarrow> timestamp e1 = timestamp e2 \<Longrightarrow> event e1 = event e2 \<Longrightarrow>
   chain e1 = chain e2 \<Longrightarrow>
   verifyEntry H J c e1 expectedPreviousHash = verifyEntry H J c e2 expectedPreviousHash
   \<and> verifyEntry H J c (e1\<lparr>service := sv, signature := sg\<rparr>) expectedPreviousHash
     = verifyEntry H J c e1 expectedPreviousHash"
  using verifyEntry_fields [of e1 e2 H J c expectedPreviousHash]
    verifyEntry_fields [of "e1\<lparr>service := sv, signature := sg\<rparr>" e1 H J c expectedPreviousHash]
  by simp

theorem verifyEntry_ignores_service_signature_witness:
  "entry_id (loggedEntry sampleDigest sampleStringify sampleLogger ''id1'' 1 (sampleEvent ''login''))
     = entry_id ((loggedEntry sampleDigest sampleStringify sampleLogger ''id1'' 1
                    (sampleEvent ''login''))\<lparr>service := None, signature := Some ''sig''\<rparr>)
   \<and> service (loggedEntry sampleDigest sampleStringify sampleLogger ''id1'' 1 (sampleEvent ''login''))
     \<noteq> service ((loggedEntry sampleDigest sampleStringify sampleLogger ''id1'' 1
                    (sampleEvent ''login''))\<lparr>service := None, signature := Some ''sig''\<rparr>)
   \<and> signature (loggedEntry sampleDigest sampleStringify sampleLogger ''id1'' 1 (sampleEvent ''login''))
     \<noteq> signature ((loggedEntry sampleDigest sampleStringify sampleLogger ''id1'' 1
                    (sampleEvent ''login''))\<lparr>service := None, signature := Some ''sig''\<rparr>)
   \<and> verifyEntry sampleDigest sampleStringify (HashChain_new sampleDigest None)
        (loggedEntry sampleDigest sampleStringify sampleLogger ''id1'' 1 (sampleEvent ''login''))
        ''sha256:GENESIS''
   \<and> verifyEntry sampleDigest sampleStringify (HashChain_new sampleDigest None)
        ((loggedEntry sampleDigest sampleStringify sampleLogger ''id1'' 1
            (sampleEvent ''login''))\<lparr>service := None, signature := Some ''sig''\<rparr>)
        ''sha256:GENESIS''"
  using verifyEntry_ignores_service_signature [of
      "loggedEntry sampleDigest sampleStringify sampleLogger ''id1'' 1 (sampleEvent ''login'')"
      "(loggedEntry sampleDigest sampleStringify sampleLogger ''id1'' 1
          (sampleEvent ''login''))\<lparr>service := None, signature := Some ''sig''\<rparr>"
      sampleDigest sampleStringify "HashChain_new sampleDigest None" "''sha256:GENESIS''"]
  by (simp add: loggedEntry_def sampleLogger_def AuditLogger_new_def mergeAuditConfig_def
      overlay_def pick_def noConfig_def orElse_def defaultAuditConfig_def chainEntry_def
      addEntry_def computeHash_def HashChain_new_def computeGenesisHash_def newEntry_def
      normalizeEvent_def sampleEvent_def sampleDigest_def sampleStringify_def verifyEntry_def
      Let_def)

section \<open>The sink writer and the logger\<close>

lemma writeToSink_call: "fst (writeToSink R sink entry tr) = tr @ [sinkCall sink entry]"
  by (cases sink) (simp_all add: writeToSink_def sinkCall_def)

lemma writeToSinks_calls:
  "fst (writeToSinks R ss entry tr) = tr @ map (\<lambda>sink. sinkCall sink entry) ss"
proof (induction ss arbitrary: tr)
  case Nil
  show ?case by simp
next
  case (Cons sink rest)
  obtain tr1 p where w: "writeToSink R sink entry tr = (tr1, p)"
    by (cases "writeToSink R sink entry tr")
  then have t: "tr1 = tr @ [sinkCall sink entry]"
    using writeToSink_call [of R sink entry tr] by simp
  obtain tr2 ps where ws: "writeToSinks R rest entry tr1 = (tr2, ps)"
    by (cases "writeToSinks R rest entry tr1")
  with Cons.IH [of tr1] have "tr2 = tr1 @ map (\<lambda>sink. sinkCall sink entry) rest" by simp
  with w ws t show ?case by simp
qed

lemma SinkWriter_write_list:
  "writer_sinks sw = Some ss \<Longrightarrow>
   SinkWriter_write R sw entry tr = (tr @ map (\<lambda>sink. sinkCall sink entry) ss, Inr ())"
proof -
  assume s: "writer_sinks sw = Some ss"
  obtain tr' ps where w: "writeToSinks R ss entry tr = (tr', ps)"
    by (cases "writeToSinks R ss entry tr")
  with writeToSinks_calls [of R ss entry tr]
  have "tr' = tr @ map (\<lambda>sink. sinkCall sink entry) ss" by simp
  with s w show ?thesis by (simp add: SinkWriter_write_def allSettled_def)
qed

lemma log_result:
  "log H J R wr lg uuid now ev tr =
     (lg\<lparr>logger_chain := snd (chainEntry H J (logger_chain lg) (newEntry (config lg) uuid now ev)),
         store := fst (wr (store lg) (loggedEntry H J lg uuid now ev))\<rparr>,
      (case snd (wr (store lg) (loggedEntry H J lg uuid now ev)) of
         Inl r \<Rightarrow> tr
       | Inr u \<Rightarrow> fst (SinkWriter_write R (sinkWriter lg) (loggedEntry H J lg uuid now ev) tr)),
      (case snd (wr (store lg) (loggedEntry H J lg uuid now ev)) of
         Inl r \<Rightarrow> Inl r
       | Inr u \<Rightarrow>
           (case snd (SinkWriter_write R (sinkWriter lg) (loggedEntry H J lg uuid now ev) tr) of
              Inl r \<Rightarrow> Inl r
            | Inr u' \<Rightarrow> Inr (loggedEntry H J lg uuid now ev))))"
proof -
  obtain e ch where c: "chainEntry H J (logger_chain lg) (newEntry (config lg) uuid now ev) = (e, ch)"
    by (cases "chainEntry H J (logger_chain lg) (newEntry (config lg) uuid now ev)")
  obtain st written where w: "wr (store lg) e = (st, written)"
    by (cases "wr (store lg) e")
  obtain tr' p where sw: "SinkWriter_write R (sinkWriter lg) e tr = (tr', p)"
    by (cases "SinkWriter_write R (sinkWriter lg) e tr")
  show ?thesis
    by (cases written; cases p) (simp_all add: log_def loggedEntry_def c w sw)
qed

lemma log_result_list:
  "writer_sinks (sinkWriter lg) = Some ss \<Longrightarrow>
   log H J R wr lg uuid now ev tr =
     (lg\<lparr>logger_chain := snd (chainEntry H J (logger_chain lg) (newEntry (config lg) uuid now ev)),
         store := fst (wr (store lg) (loggedEntry H J lg uuid now ev))\<rparr>,
      (case snd (wr (store lg) (loggedEntry H J lg uuid now ev)) of
         Inl r \<Rightarrow> tr
       | Inr u \<Rightarrow> tr @ map (\<lambda>sink. sinkCall sink (loggedEntry H J lg uuid now ev)) ss),
      (case snd (wr (store lg) (loggedEntry H J lg uuid now ev)) of
         Inl r \<Rightarrow> Inl r
       | Inr u \<Rightarrow> Inr (loggedEntry H J lg uuid now ev)))"
  by (simp add: log_result SinkWriter_write_list split: sum.splits)

lemma loggedEntry_event: "event (loggedEntry H J lg uuid now ev) = normalizeEvent ev"
  by (simp add: loggedEntry_def chainEntry_def newEntry_def Let_def
      split: option.splits prod.splits)

lemma sampleLogger_sinks: "writer_sinks (sinkWriter sampleLogger) = Some allSinks"
  by (simp add: sampleLogger_def AuditLogger_new_def SinkWriter_new_def mergeAuditConfig_def
      overlay_def pick_def noConfig_def Let_def)



text \<open>
  C8. In the entry that \<open>log\<close> hands to the store and returns, \<open>event.actor\<close> is the
  event's own \<open>actor\<close> object, unchanged, when the event has one, also when it has
  shorthand fields as well; only when the event has no \<open>actor\<close> object is it the
  object \<open>{id: actorId, type: actorType, ip: actorIp}\<close>. The same holds for
  \<open>event.resource\<close> with \<open>{id: resourceId, type: resourceType}\<close>. The shorthand
  fields themselves are kept as they were.
\<close>

theorem log_normalizes_actor_resource:
  "snd (snd (log H J R wr lg uuid now ev tr)) = Inr entry \<Longrightarrow>
     wr (store lg) entry = (store (fst (log H J R wr lg uuid now ev tr)), Inr ())
     \<and> actor (event entry)
         = Some (case actor ev of
                   Some a \<Rightarrow> a
                 | None \<Rightarrow> \<lparr>actor_id = actorId ev, actor_type = actorType ev,
                             actor_name = None, actor_ip = actorIp ev,
                             actor_userAgent = None, actor_sessionId = None,
                             actor_metadata = None\<rparr>)
     \<and> resource (event entry)
         = Some (case resource ev of
                   Some r \<Rightarrow> r
                 | None \<Rightarrow> \<lparr>resource_id = resourceId ev, resource_type = resourceType ev,
                             resource_name = None, resource_path = None,
                             resource_metadata = None\<rparr>)
     \<and> actorId (event entry) = actorId ev \<and> actorType (event entry) = actorType ev
     \<and> actorIp (event entry) = actorIp ev \<and> resourceId (event entry) = resourceId ev
     \<and> resourceType (event entry) = resourceType ev"
proof -
  assume a: "snd (snd (log H J R wr lg uuid now ev tr)) = Inr entry"
  let ?e = "loggedEntry H J lg uuid now ev"
  from a have e: "entry = ?e" and w: "snd (wr (store lg) ?e) = Inr ()"
    by (auto simp: log_result split: sum.splits)
  have "wr (store lg) ?e = (store (fst (log H J R wr lg uuid now ev tr)), Inr ())"
    using w by (simp add: log_result prod_eq_iff)
  then show ?thesis
    unfolding e by (simp add: loggedEntry_event normalizeEvent_def)
qed

theorem log_normalizes_actor_resource_witness:
  "snd (snd (log sampleDigest sampleStringify quietRespond memoryWrite sampleLogger ''id1'' 1
               ((sampleEvent ''login'')\<lparr>actor := Some fullActor, actorId := Some ''short'',
                                         resourceId := Some ''doc-7''\<rparr>) []))
     = Inr (loggedEntry sampleDigest sampleStringify sampleLogger ''id1'' 1
              ((sampleEvent ''login'')\<lparr>actor := Some fullActor, actorId := Some ''short'',
                                        resourceId := Some ''doc-7''\<rparr>))
   \<and> actor (event (loggedEntry sampleDigest sampleStringify sampleLogger ''id1'' 1
              ((sampleEvent ''login'')\<lparr>actor := Some fullActor, actorId := Some ''short'',
                                        resourceId := Some ''doc-7''\<rparr>)))
     = Some fullActor
   \<and> resource (event (loggedEntry sampleDigest sampleStringify sampleLogger ''id1'' 1
              ((sampleEvent ''login'')\<lparr>actor := Some fullActor, actorId := Some ''short'',
                                        resourceId := Some ''doc-7''\<rparr>)))
     = Some \<lparr>resource_id = Some ''doc-7'', resource_type = None, resource_name = None,
             resource_path = None, resource_metadata = None\<rparr>"
  using log_normalizes_actor_resource [of sampleDigest sampleStringify quietRespond memoryWrite
      sampleLogger "''id1''" 1
      "(sampleEvent ''login'')\<lparr>actor := Some fullActor, actorId := Some ''short'',
                                 resourceId := Some ''doc-7''\<rparr>"
      "[]"
      "loggedEntry sampleDigest sampleStringify sampleLogger ''id1'' 1
              ((sampleEvent ''login'')\<lparr>actor := Some fullActor, actorId := Some ''short'',
                                        resourceId := Some ''doc-7''\<rparr>)"]
  by (simp add: log_result_list [OF sampleLogger_sinks] memoryWrite_def sampleEvent_def)

lemma merge_asPartial: "mergeAuditConfig env (asPartial c) = c"
  by (simp add: mergeAuditConfig_def overlay_def asPartial_def pick_def present_def
      defaultAuditConfig_def split: option.splits)

lemma setConfig_parts:
  "logger_chain (setConfig H env lg p)
     = (case p_hashChain p of
          Value b \<Rightarrow> if b then Some (HashChain_new H (hashAlgorithm (overlay (config lg) p)))
                     else None
        | Absent \<Rightarrow> logger_chain lg
        | Undefined \<Rightarrow> logger_chain lg)"
  "sinkWriter (setConfig H env lg p)
     = (case p_sinks p of
          Value ss \<Rightarrow> SinkWriter_new (Some ss)
        | Absent \<Rightarrow> sinkWriter lg
        | Undefined \<Rightarrow> sinkWriter lg)"
  "store (setConfig H env lg p) = store lg"
  "config (setConfig H env lg p) = overlay (config lg) p"
  by (simp_all add: setConfig_def Let_def merge_asPartial split: field.splits)

lemma loggedOnce_state:
  "hashChain (config loggedOnce) = Some True"
  "hashAlgorithm (config loggedOnce) = Some sha256"
  "logger_chain loggedOnce
     = Some \<lparr>algorithm = sha256,
             this_previousHash = ''sha256:id1|login|sha256:GENESIS'', this_sequence = 1\<rparr>"
  by (simp_all add: loggedOnce_def log_result sampleLogger_def
      AuditLogger_new_def mergeAuditConfig_def overlay_def pick_def noConfig_def orElse_def
      Let_def defaultAuditConfig_def chainEntry_def addEntry_def computeHash_def
      HashChain_new_def computeGenesisHash_def newEntry_def normalizeEvent_def sampleEvent_def
      sampleDigest_def sampleStringify_def)

text \<open>
  \<open>setConfig({hashChain: undefined})\<close> on a logger with chaining on: the flag of the
  configuration becomes undefined and the running chain stays.
\<close>

lemma setConfig_undefined_keeps_chain:
  "hashChain (config (setConfig sampleDigest sampleEnv loggedOnce
                        (noConfig\<lparr>p_hashChain := Undefined\<rparr>))) = None
   \<and> logger_chain (setConfig sampleDigest sampleEnv loggedOnce
                     (noConfig\<lparr>p_hashChain := Undefined\<rparr>)) = logger_chain loggedOnce"
  by (simp add: setConfig_parts overlay_def pick_def noConfig_def)

text \<open>
  C7 as it holds. \<open>setConfig\<close> replaces the chain exactly when its argument has a
  \<open>hashChain\<close> field with a value (\<open>config.hashChain !== undefined\<close>): by a fresh
  instance at genesis (sequence 0, the genesis digest of the new configuration's
  algorithm, \<open>sha256\<close> when that is undefined) when the value is true, also when the
  flag was true before, and by none when it is false. When the field is absent or
  undefined, the chain instance and its running state stay as they are. The sink
  writer is replaced only when the argument supplies \<open>sinks\<close>.
\<close>

theorem setConfig_replaces_when_supplied:
  "logger_chain (setConfig H env lg p)
     = (case p_hashChain p of
          Value b \<Rightarrow>
            if b
            then Some \<lparr>algorithm = orElse (hashAlgorithm (config (setConfig H env lg p))) sha256,
                       this_previousHash =
                         H (orElse (hashAlgorithm (config (setConfig H env lg p))) sha256)
                           ''GENESIS'',
                       this_sequence = 0\<rparr>
            else None
        | Absent \<Rightarrow> logger_chain lg
        | Undefined \<Rightarrow> logger_chain lg)
   \<and> (p_sinks p = Absent \<or> p_sinks p = Undefined \<longrightarrow>
        sinkWriter (setConfig H env lg p) = sinkWriter lg)"
  by (auto simp: setConfig_parts HashChain_new_def computeGenesisHash_def orElse_def Let_def
      split: field.splits option.splits)

theorem setConfig_replaces_when_supplied_witness:
  "p_sinks (noConfig\<lparr>p_hashChain := Value False\<rparr>) = Absent
   \<and> sinkWriter (setConfig sampleDigest sampleEnv loggedOnce (noConfig\<lparr>p_hashChain := Value False\<rparr>))
     = sinkWriter loggedOnce
   \<and> logger_chain (setConfig sampleDigest sampleEnv loggedOnce (noConfig\<lparr>p_hashChain := Value False\<rparr>))
     = None
   \<and> logger_chain loggedOnce \<noteq> None"
  using setConfig_replaces_when_supplied [of sampleDigest sampleEnv loggedOnce
      "noConfig\<lparr>p_hashChain := Value False\<rparr>"]
  by (simp add: noConfig_def loggedOnce_state)

text \<open>
  C7 as stated fails: a logger with chaining on has logged one entry (its chain is
  at sequence 1); \<open>setConfig({hashChain: true})\<close> leaves the flag as it was and
  still replaces the chain by a fresh one at sequence 0.
\<close>

theorem setConfig_same_flag_resets_chain:
  "hashChain (config (setConfig sampleDigest sampleEnv loggedOnce (noConfig\<lparr>p_hashChain := Value True\<rparr>)))
     = hashChain (config loggedOnce)
   \<and> logger_chain loggedOnce
     = Some \<lparr>algorithm = sha256,
             this_previousHash = ''sha256:id1|login|sha256:GENESIS'', this_sequence = 1\<rparr>
   \<and> logger_chain (setConfig sampleDigest sampleEnv loggedOnce (noConfig\<lparr>p_hashChain := Value True\<rparr>))
     = Some \<lparr>algorithm = sha256, this_previousHash = ''sha256:GENESIS'', this_sequence = 0\<rparr>"
  by (simp add: noConfig_def loggedOnce_state setConfig_parts overlay_def pick_def orElse_def
      HashChain_new_def computeGenesisHash_def sampleDigest_def)

end
